theory Spec2Isabelle
  imports Complex_Main "HOL-Library.Word"
begin

section \<open>Numbers, errors and the host's audio buffer\<close>

text \<open>
  The audio utilities work on JavaScript numbers. A sample read from a \<open>Float32Array\<close> is
  either a finite value or \<open>NaN\<close>; an index past the end of a typed array reads
  \<open>undefined\<close>, which every arithmetic operation turns into \<open>NaN\<close>. A finite sample
  is modelled by the real number it denotes. The products \<open>s * 32768\<close> and
  \<open>s * 32767\<close> of a 24-bit significand with a 15-bit integer and the sum \<open>0.5 + s\<close>
  compared with zero are exact in double precision, so exact real arithmetic is what the
  quantisers compute on finite samples. An infinite sample is clamped to \<open>1\<close> or \<open>-1\<close>
  like every finite sample of larger magnitude and is not modelled separately.
\<close>

datatype number = NaN | Num real

fun js_min :: "number \<Rightarrow> number \<Rightarrow> number" where
  "js_min (Num a) (Num b) = Num (min a b)"
| "js_min _ _ = NaN"

fun js_max :: "number \<Rightarrow> number \<Rightarrow> number" where
  "js_max (Num a) (Num b) = Num (max a b)"
| "js_max _ _ = NaN"

fun js_add :: "number \<Rightarrow> number \<Rightarrow> number" where
  "js_add (Num a) (Num b) = Num (a + b)"
| "js_add _ _ = NaN"

fun js_mul :: "number \<Rightarrow> number \<Rightarrow> number" where
  "js_mul (Num a) (Num b) = Num (a * b)"
| "js_mul _ _ = NaN"

fun js_less :: "number \<Rightarrow> number \<Rightarrow> bool" where
  "js_less (Num a) (Num b) = (a < b)"
| "js_less _ _ = False"

text \<open>Conversion of a number to an integer drops the fraction (towards zero).\<close>

definition js_trunc :: "real \<Rightarrow> int" where
  "js_trunc x = (if x < 0 then \<lceil>x\<rceil> else \<lfloor>x\<rfloor>)"

text \<open>\<open>x | 0\<close>: \<open>NaN\<close> becomes 0, anything else is truncated and wrapped to 32 signed bits.\<close>

fun ToInt32 :: "number \<Rightarrow> int" where
  "ToInt32 NaN = 0"
| "ToInt32 (Num x) = sint (word_of_int (js_trunc x) :: 32 word)"

text \<open>A store into an \<open>Int16Array\<close> element: truncated and wrapped to 16 bits.\<close>

fun ToInt16 :: "number \<Rightarrow> 16 word" where
  "ToInt16 NaN = 0"
| "ToInt16 (Num x) = word_of_int (js_trunc x)"

text \<open>Reading element \<open>i\<close> of a \<open>Float32Array\<close>; past the end the read gives \<open>undefined\<close>.\<close>

definition nth_js :: "number list \<Rightarrow> nat \<Rightarrow> number" where
  "nth_js xs i = (if i < length xs then xs ! i else NaN)"

datatype error = Error string | RangeError | NotSupportedError | IndexSizeError | TypeError

text \<open>Sequencing of steps that may throw: the first throw ends the sequence.\<close>

fun and_then :: "'x + 'a \<Rightarrow> ('a \<Rightarrow> 'x + 'c) \<Rightarrow> 'x + 'c" where
  "and_then (Inl e) f = Inl e"
| "and_then (Inr x) f = f x"

fun run :: "('s \<Rightarrow> error + 's) list \<Rightarrow> 's \<Rightarrow> error + 's" where
  "run [] s = Inr s"
| "run (f # fs) s = and_then (f s) (run fs)"

text \<open>
  The host's \<open>AudioBuffer\<close>: a sample rate (a whole number of Hz), a length in frames, and
  one \<open>Float32Array\<close> per channel. The host keeps every channel exactly \<open>length\<close> frames
  long; \<open>getChannelData\<close> throws \<open>IndexSizeError\<close> for a channel the buffer does not have.
\<close>

record AudioBuffer =
  sampleRate :: nat
  length_ab :: nat
  channelData :: "number list list"

definition numberOfChannels :: "AudioBuffer \<Rightarrow> nat" where
  "numberOfChannels b = length (channelData b)"

definition getChannelData :: "AudioBuffer \<Rightarrow> nat \<Rightarrow> error + number list" where
  "getChannelData b i =
     (if i < numberOfChannels b then Inr (channelData b ! i) else Inl IndexSizeError)"

definition structurally_valid :: "AudioBuffer \<Rightarrow> bool" where
  "structurally_valid b = list_all (\<lambda>ch. length ch = length_ab b) (channelData b)"

text \<open>
  \<open>context.createBuffer(numberOfChannels, length, sampleRate)\<close> gives a buffer of silence and
  throws \<open>NotSupportedError\<close> when an argument is zero. (A host also has upper limits; the
  arguments here come from a buffer the same host made.)
\<close>

definition createBuffer :: "nat \<Rightarrow> nat \<Rightarrow> nat \<Rightarrow> error + AudioBuffer" where
  "createBuffer c n r =
     (if c = 0 \<or> n = 0 \<or> r = 0 then Inl NotSupportedError
      else Inr \<lparr>sampleRate = r, length_ab = n, channelData = replicate c (replicate n (Num 0))\<rparr>)"

section \<open>sliceAudioBuffer\<close>

text \<open>
  The two times are finite numbers of seconds. \<open>startSeconds * rate\<close> is a
  double-precision product: the exact product, rounded. The rounding is the parameter
  \<open>rnd\<close>. \<open>Math.floor\<close> and \<open>Math.ceil\<close> are exact. The \<open>AudioContext\<close> is used for
  \<open>createBuffer\<close> only.

  The inner loop copies \<open>frameCount\<close> samples, the outer loop runs over the channels;
  \<open>newData\<close> is a live view of the new buffer's channel, so the copy is written back.
\<close>

function copy_range :: "number list \<Rightarrow> nat \<Rightarrow> nat \<Rightarrow> nat \<Rightarrow> number list \<Rightarrow> number list" where
  "copy_range oldData startOffset frameCount i newData =
     (if i < frameCount
      then copy_range oldData startOffset frameCount (i + 1)
             (newData[i := nth_js oldData (i + startOffset)])
      else newData)"
  by pat_completeness auto
termination
  by (relation "measure (\<lambda>(oldData, startOffset, frameCount, i, newData). frameCount - i)") auto

declare copy_range.simps [simp del]

function copy_channels ::
  "AudioBuffer \<Rightarrow> nat \<Rightarrow> nat \<Rightarrow> nat \<Rightarrow> AudioBuffer \<Rightarrow> error + AudioBuffer" where
  "copy_channels buffer startOffset frameCount channel newBuffer =
     (if channel < numberOfChannels buffer
      then and_then (getChannelData buffer channel) (\<lambda>oldData.
           and_then (getChannelData newBuffer channel) (\<lambda>newData.
             copy_channels buffer startOffset frameCount (channel + 1)
               (newBuffer\<lparr>channelData := (channelData newBuffer)
                  [channel := copy_range oldData startOffset frameCount 0 newData]\<rparr>)))
      else Inr newBuffer)"
  by pat_completeness auto
termination
  by (relation "measure (\<lambda>(buffer, startOffset, frameCount, channel, newBuffer).
        numberOfChannels buffer - channel)") auto

declare copy_channels.simps [simp del]

definition sliceAudioBuffer ::
  "(real \<Rightarrow> real) \<Rightarrow> AudioBuffer \<Rightarrow> real \<Rightarrow> real \<Rightarrow> error + AudioBuffer" where
  "sliceAudioBuffer rnd buffer startSeconds endSeconds =
     (let rate = sampleRate buffer;
          startOffset = max 0 \<lfloor>rnd (startSeconds * real rate)\<rfloor>;
          endOffset = min (int (length_ab buffer)) \<lceil>rnd (endSeconds * real rate)\<rceil>;
          frameCount = endOffset - startOffset
      in if frameCount \<le> 0
         then createBuffer (numberOfChannels buffer) 1 rate
         else and_then (createBuffer (numberOfChannels buffer) (nat frameCount) rate)
                (copy_channels buffer (nat startOffset) (nat frameCount) 0))"

section \<open>PCM quantisation\<close>

text \<open>
  The MP3 path converts a whole channel with \<open>floatTo16BitPCM\<close>. The WAV encoder clamps
  and scales each sample inline; \<open>wav_sample\<close> is that inline code. In the WAV encoder the
  test of the conditional is \<open>0.5 + sample < 0\<close>: addition binds tighter than comparison.
\<close>

definition floatTo16BitPCM :: "number list \<Rightarrow> 16 word list" where
  "floatTo16BitPCM input =
     map (\<lambda>x. let s = js_max (Num (-1)) (js_min (Num 1) x)
              in ToInt16 (if js_less s (Num 0) then js_mul s (Num 32768)
                          else js_mul s (Num 32767))) input"

definition wav_sample :: "number \<Rightarrow> int" where
  "wav_sample x =
     (let sample = js_max (Num (-1)) (js_min (Num 1) x)
      in ToInt32 (if js_less (js_add (Num 0.5) sample) (Num 0)
                  then js_mul sample (Num 32768) else js_mul sample (Num 32767)))"

text \<open>The rule of the quantiser as the specification words it, on a finite sample.\<close>

definition quantize_spec :: "real \<Rightarrow> int" where
  "quantize_spec s =
     (let v = max (-1) (min 1 s)
      in if v < 0 then js_trunc (v * 32768) else js_trunc (v * 32767))"

text \<open>
  The quantiser of the specification on a sample as the arrays hold it. The specification
  gives no rule for \<open>NaN\<close>; a 16-bit integer array stores it as 0.
\<close>

fun quantize_sample :: "number \<Rightarrow> 16 word" where
  "quantize_sample NaN = 0"
| "quantize_sample (Num s) = word_of_int (quantize_spec s)"

section \<open>audioBufferToWav\<close>

text \<open>
  The \<open>ArrayBuffer\<close> is a list of bytes, zero-filled when allocated. A \<open>DataView\<close> setter
  converts its value to the field's width, stores it little-endian (the third argument is
  \<open>true\<close> at every call) and throws \<open>RangeError\<close> when the field does not fit the buffer.
  All values passed are whole numbers below \<open>2 ^ 53\<close>, which doubles hold exactly; they
  are modelled as integers.
\<close>

type_synonym byte = "8 word"

definition le16 :: "16 word \<Rightarrow> byte list" where
  "le16 w = [ucast w, ucast (drop_bit 8 w)]"

definition le32 :: "32 word \<Rightarrow> byte list" where
  "le32 w = [ucast w, ucast (drop_bit 8 w), ucast (drop_bit 16 w), ucast (drop_bit 24 w)]"

definition store_bytes :: "byte list \<Rightarrow> nat \<Rightarrow> byte list \<Rightarrow> byte list" where
  "store_bytes v p bs = take p v @ bs @ drop (p + length bs) v"

definition DataView_setUint16 :: "byte list \<Rightarrow> nat \<Rightarrow> int \<Rightarrow> error + byte list" where
  "DataView_setUint16 v byteOffset x =
     (if length v < byteOffset + 2 then Inl RangeError
      else Inr (store_bytes v byteOffset (le16 (word_of_int x))))"

definition DataView_setInt16 :: "byte list \<Rightarrow> nat \<Rightarrow> int \<Rightarrow> error + byte list" where
  "DataView_setInt16 v byteOffset x =
     (if length v < byteOffset + 2 then Inl RangeError
      else Inr (store_bytes v byteOffset (le16 (word_of_int x))))"

definition DataView_setUint32 :: "byte list \<Rightarrow> nat \<Rightarrow> int \<Rightarrow> error + byte list" where
  "DataView_setUint32 v byteOffset x =
     (if length v < byteOffset + 4 then Inl RangeError
      else Inr (store_bytes v byteOffset (le32 (word_of_int x))))"

text \<open>
  The two local helpers write at the cursor \<open>pos\<close> and advance it. They share \<open>view\<close> and
  \<open>pos\<close> with the body of the encoder; the pair \<open>(view, pos)\<close> is that shared state.
\<close>

definition setUint16 :: "int \<Rightarrow> byte list \<times> nat \<Rightarrow> error + byte list \<times> nat" where
  "setUint16 data s =
     and_then (DataView_setUint16 (fst s) (snd s) data) (\<lambda>view. Inr (view, snd s + 2))"

definition setUint32 :: "int \<Rightarrow> byte list \<times> nat \<Rightarrow> error + byte list \<times> nat" where
  "setUint32 data s =
     and_then (DataView_setUint32 (fst s) (snd s) data) (\<lambda>view. Inr (view, snd s + 4))"

text \<open>\<open>for (i ...) channels.push(buffer.getChannelData(i))\<close>\<close>

function push_channels :: "AudioBuffer \<Rightarrow> nat \<Rightarrow> number list list \<Rightarrow> error + number list list" where
  "push_channels buffer i channels =
     (if i < numberOfChannels buffer
      then and_then (getChannelData buffer i) (\<lambda>d. push_channels buffer (i + 1) (channels @ [d]))
      else Inr channels)"
  by pat_completeness auto
termination
  by (relation "measure (\<lambda>(buffer, i, channels). numberOfChannels buffer - i)") auto

declare push_channels.simps [simp del]

text \<open>
  The inner \<open>for\<close> loop writes one sample per channel at byte \<open>44 + offset\<close>, reading frame
  \<open>pos\<close> of each channel. Indexing \<open>channels\<close> past its end would give \<open>undefined\<close>, and
  indexing that throws \<open>TypeError\<close>.
\<close>

function wav_frame ::
  "number list list \<Rightarrow> nat \<Rightarrow> nat \<Rightarrow> nat \<Rightarrow> byte list \<times> nat \<Rightarrow> error + byte list \<times> nat" where
  "wav_frame channels numOfChan pos i (view, offset) =
     (if i < numOfChan
      then if i < length channels
           then and_then
                  (DataView_setInt16 view (44 + offset) (wav_sample (nth_js (channels ! i) pos)))
                  (\<lambda>view'. wav_frame channels numOfChan pos (i + 1) (view', offset + 2))
           else Inl TypeError
      else Inr (view, offset))"
  by pat_completeness auto
termination
  by (relation "measure (\<lambda>(channels, numOfChan, pos, i, s). numOfChan - i)") auto

declare wav_frame.simps [simp del]

text \<open>\<open>while (pos < buffer.length) { ...; pos++ }\<close>\<close>

function wav_loop ::
  "AudioBuffer \<Rightarrow> number list list \<Rightarrow> nat \<Rightarrow> nat \<Rightarrow> byte list \<times> nat \<Rightarrow> error + byte list \<times> nat" where
  "wav_loop buffer channels numOfChan pos s =
     (if pos < length_ab buffer
      then and_then (wav_frame channels numOfChan pos 0 s)
             (wav_loop buffer channels numOfChan (pos + 1))
      else Inr s)"
  by pat_completeness auto
termination
  by (relation "measure (\<lambda>(buffer, channels, numOfChan, pos, s). length_ab buffer - pos)") auto

declare wav_loop.simps [simp del]

text \<open>
  The encoder. The header is written through the cursor \<open>pos\<close>, which stands at 44 after
  it; the sample loop then goes on from the same variable \<open>pos\<close>. The result is the
  content of the \<open>Blob\<close>.
\<close>

definition audioBufferToWav :: "AudioBuffer \<Rightarrow> error + byte list" where
  "audioBufferToWav buffer =
     (let numOfChan = numberOfChannels buffer;
          length_wav = int (length_ab buffer) * int numOfChan * 2 + 44;
          bufferArr = replicate (nat length_wav) (0 :: byte)
      in and_then
           (run [setUint32 0x46464952,
                 setUint32 (length_wav - 8),
                 setUint32 0x45564157,
                 setUint32 0x20746d66,
                 setUint32 16,
                 setUint16 1,
                 setUint16 (int numOfChan),
                 setUint32 (int (sampleRate buffer)),
                 setUint32 (int (sampleRate buffer) * 2 * int numOfChan),
                 setUint16 (int numOfChan * 2),
                 setUint16 16,
                 setUint32 0x61746164,
                 (\<lambda>s. setUint32 (length_wav - int (snd s) - 4) s)]
              (bufferArr, 0))
           (\<lambda>(view, pos).
              and_then (push_channels buffer 0 []) (\<lambda>channels.
              and_then (wav_loop buffer channels numOfChan pos (view, 0)) (\<lambda>(view', offset).
                Inr view'))))"

text \<open>
  The byte stream of the specification: the 44-byte header, then for each frame in
  increasing order each channel's quantised sample, little-endian.
\<close>

definition wav_header_spec :: "nat \<Rightarrow> nat \<Rightarrow> nat \<Rightarrow> byte list" where
  "wav_header_spec C S L =
     map (of_nat \<circ> of_char) ''RIFF'' @ le32 (of_nat (L * C * 2 + 44 - 8)) @
     map (of_nat \<circ> of_char) ''WAVE'' @
     map (of_nat \<circ> of_char) ''fmt '' @ le32 16 @
     le16 1 @ le16 (of_nat C) @ le32 (of_nat S) @ le32 (of_nat (S * 2 * C)) @
     le16 (of_nat (2 * C)) @ le16 16 @
     map (of_nat \<circ> of_char) ''data'' @ le32 (of_nat (L * C * 2))"

definition wav_spec :: "AudioBuffer \<Rightarrow> byte list" where
  "wav_spec b =
     wav_header_spec (numberOfChannels b) (sampleRate b) (length_ab b) @
     concat (map (\<lambda>frame. concat (map (\<lambda>ch. le16 (word_of_int
                (case nth_js ch frame of Num s \<Rightarrow> quantize_spec s | NaN \<Rightarrow> 0)))
              (channelData b)))
        [0..<length_ab b])"

text \<open>
  Two notions for stating what the encoder writes. While the header is written, the buffer
  is the bytes written so far followed by zeros, and the cursor stands after them. The
  bytes the sample loop writes for frame \<open>pos\<close> are each channel's sample, in channel order.
\<close>

definition wstate :: "byte list \<Rightarrow> nat \<Rightarrow> byte list \<times> nat" where
  "wstate pre k = (pre @ replicate k 0, length pre)"

definition frame_bytes :: "number list list \<Rightarrow> nat \<Rightarrow> byte list" where
  "frame_bytes channels pos =
     concat (map (\<lambda>ch. le16 (word_of_int (wav_sample (nth_js ch pos)))) channels)"

section \<open>audioBufferToMp3\<close>

text \<open>
  The lamejs encoder is not part of the repository and is a parameter: its constructor
  \<open>new Mp3Encoder(channels, sampleRate, kbps)\<close>, \<open>encodeBuffer(left, right)\<close> and
  \<open>flush()\<close>, each of which may throw and the last two of which return the compressed
  bytes produced and leave the encoder in a new state. The argument of \<open>audioBufferToMp3\<close> is
  the constructor the lookup finds, \<open>None\<close> when it finds none.
\<close>

record 'st Mp3Encoder =
  new_encoder :: "nat \<Rightarrow> nat \<Rightarrow> nat \<Rightarrow> error + 'st"
  encodeBuffer :: "'st \<Rightarrow> 16 word list \<Rightarrow> 16 word list option \<Rightarrow> error + byte list \<times> 'st"
  flush :: "'st \<Rightarrow> error + byte list \<times> 'st"

definition sampleBlockSize :: nat where
  "sampleBlockSize = 1152"

text \<open>\<open>a.subarray(begin, end)\<close> for \<open>begin \<le> end\<close>: the elements from \<open>begin\<close> up to \<open>end\<close>
  or the end of the array.\<close>

definition subarray :: "'a list \<Rightarrow> nat \<Rightarrow> nat \<Rightarrow> 'a list" where
  "subarray a begin end = drop begin (take end a)"

function encode_blocks ::
  "'st Mp3Encoder \<Rightarrow> nat \<Rightarrow> 16 word list \<Rightarrow> 16 word list option \<Rightarrow> nat \<Rightarrow>
   'st \<times> byte list list \<Rightarrow> error + 'st \<times> byte list list" where
  "encode_blocks mp3encoder channels left right i (enc, mp3Data) =
     (if i < length left
      then let leftChunk = subarray left i (i + sampleBlockSize);
               rightChunk = (case right of
                               Some r \<Rightarrow> Some (subarray r i (i + sampleBlockSize))
                             | None \<Rightarrow> None)
           in and_then
                (if channels = 1 then encodeBuffer mp3encoder enc leftChunk None
                 else encodeBuffer mp3encoder enc leftChunk rightChunk)
                (\<lambda>(mp3buf, enc').
                   encode_blocks mp3encoder channels left right (i + sampleBlockSize)
                     (enc', if 0 < length mp3buf then mp3Data @ [mp3buf] else mp3Data))
      else Inr (enc, mp3Data))"
  by pat_completeness auto
termination
  by (relation "measure (\<lambda>(mp3encoder, channels, left, right, i, s). length left - i)")
     (auto simp: sampleBlockSize_def)

declare encode_blocks.simps [simp del]

text \<open>The \<open>catch\<close> clause logs and rethrows, so an error inside the \<open>try\<close> block is the
  error of the call. The result is the content of the \<open>Blob\<close>: the chunks in order.\<close>

definition audioBufferToMp3 :: "'st Mp3Encoder option \<Rightarrow> AudioBuffer \<Rightarrow> error + byte list" where
  "audioBufferToMp3 lamejs buffer =
     (let channels = min 2 (numberOfChannels buffer);
          kbps = 128
      in case lamejs of
           None \<Rightarrow> Inl (Error ''Mp3Encoder library not loaded correctly'')
         | Some Mp3EncoderConstructor \<Rightarrow>
             and_then (new_encoder Mp3EncoderConstructor channels (sampleRate buffer) kbps)
               (\<lambda>mp3encoder.
             and_then (getChannelData buffer 0) (\<lambda>data0.
             and_then (if 1 < channels
                       then and_then (getChannelData buffer 1)
                              (\<lambda>data1. Inr (Some (floatTo16BitPCM data1)))
                       else Inr None) (\<lambda>right.
             and_then (encode_blocks Mp3EncoderConstructor channels (floatTo16BitPCM data0) right 0
                         (mp3encoder, [])) (\<lambda>(enc, mp3Data).
             and_then (flush Mp3EncoderConstructor enc) (\<lambda>(mp3buf, enc').
               Inr (concat (if 0 < length mp3buf then mp3Data @ [mp3buf] else mp3Data))))))))"

text \<open>
  The pipeline as the specification words it: quantise at most the first two channels
  with the specification's quantiser, cut
  them into consecutive blocks of 1152 frames (the last one may be shorter), feed the blocks
  in order to a fresh encoder at 128 kbps, keeping every non-empty chunk it returns, flush,
  and concatenate.
\<close>

function blocks_of :: "nat \<Rightarrow> 'a list \<Rightarrow> 'a list list" where
  "blocks_of n xs = (if n = 0 \<or> xs = [] then [] else take n xs # blocks_of n (drop n xs))"
  by pat_completeness auto
termination
  by (relation "measure (\<lambda>(n, xs). length xs)") auto

declare blocks_of.simps [simp del]

fun feed_blocks ::
  "'st Mp3Encoder \<Rightarrow> (16 word list \<times> 16 word list option) list \<Rightarrow>
   'st \<times> byte list list \<Rightarrow> error + 'st \<times> byte list list" where
  "feed_blocks mp3encoder [] s = Inr s"
| "feed_blocks mp3encoder ((l, r) # blocks) (enc, acc) =
     and_then (encodeBuffer mp3encoder enc l r)
       (\<lambda>(chunk, enc'). feed_blocks mp3encoder blocks (enc', if chunk = [] then acc else acc @ [chunk]))"

definition encodeMp3_spec :: "'st Mp3Encoder \<Rightarrow> AudioBuffer \<Rightarrow> error + byte list" where
  "encodeMp3_spec mp3encoder b =
     (let pcm = map (map quantize_sample) (take 2 (channelData b));
          blocks = (case pcm of
                      [l] \<Rightarrow> map (\<lambda>lb. (lb, None)) (blocks_of 1152 l)
                    | [l, r] \<Rightarrow> zip (blocks_of 1152 l) (map Some (blocks_of 1152 r))
                    | _ \<Rightarrow> [])
      in and_then (new_encoder mp3encoder (length pcm) (sampleRate b) 128) (\<lambda>enc.
         and_then (feed_blocks mp3encoder blocks (enc, [])) (\<lambda>(enc', acc).
         and_then (flush mp3encoder enc') (\<lambda>(chunk, enc'').
           Inr (concat acc @ chunk)))))"

section \<open>handleDownloadAll\<close>

text \<open>
  The handler of the batch download reads the component's \<open>processedSegments\<close> and
  \<open>originalFile\<close> and sets \<open>isZipping\<close> and \<open>zipType\<close>. What it shows to the user is an
  \<open>alert\<close> or a download of the archive. The handler schedules its work with a timer and
  waits between segments; the model gives the state and the effects once that work is done.
  Console output is not modelled.
\<close>

datatype format = Wav | Mp3

fun format_string :: "format \<Rightarrow> string" where
  "format_string Wav = ''wav''"
| "format_string Mp3 = ''mp3''"

text \<open>\<open>format.toUpperCase()\<close>\<close>

fun format_toUpperCase :: "format \<Rightarrow> string" where
  "format_toUpperCase Wav = ''WAV''"
| "format_toUpperCase Mp3 = ''MP3''"

record SegmentData =
  text_seg :: string
  start_seg :: real
  end_seg :: real

record ProcessedSegment = SegmentData +
  id_seg :: string
  blob :: "byte list"
  url :: string
  duration :: real
  audioBuffer :: AudioBuffer

record App =
  processedSegments :: "ProcessedSegment list"
  originalFile :: "string option"
  isZipping :: bool
  zipType :: "format option"

datatype effect = alert string | download string "byte list"

text \<open>A number in a template literal: its decimal digits.\<close>

fun string_of_nat :: "nat \<Rightarrow> string" where
  "string_of_nat n =
     (if n < 10 then [''0123456789'' ! n]
      else string_of_nat (n div 10) @ [''0123456789'' ! (n mod 10)])"

declare string_of_nat.simps [simp del]

text \<open>Reading the digits back.\<close>

definition nat_of_string :: "string \<Rightarrow> nat" where
  "nat_of_string s = foldl (\<lambda>a c. 10 * a + (of_char c - 48)) 0 s"

text \<open>
  \<open>name.replace(/\.[^/.]+$/, "")\<close> removes a last extension: the final dot and what
  follows it, when at least one character follows and none of them is a slash.
\<close>

definition strip_extension :: "string \<Rightarrow> string" where
  "strip_extension name =
     (let ext = takeWhile (\<lambda>c. c \<noteq> CHR ''.'') (rev name)
      in if length ext < length name \<and> ext \<noteq> [] \<and> CHR ''/'' \<notin> set ext
         then take (length name - length ext - 1) name else name)"

text \<open>
  The loop over the segments. The archive under construction is the list of its entries
  (the file names differ, so \<open>zip.file\<close> always adds one). \<open>Inl m\<close> is
  \<open>throw new Error(m)\<close>; the error thrown by \<open>audioBufferToMp3\<close> is caught and replaced.
\<close>

function zip_segments ::
  "'st Mp3Encoder option \<Rightarrow> format \<Rightarrow> ProcessedSegment list \<Rightarrow> nat \<Rightarrow>
   (string \<times> byte list) list \<times> bool \<Rightarrow> string + (string \<times> byte list) list \<times> bool" where
  "zip_segments lamejs format segments index (zip', hasError) =
     (if index < length segments
      then let segment = segments ! index
           in and_then
                (if format = Mp3
                 then (case audioBufferToMp3 lamejs (audioBuffer segment) of
                         Inr blob' \<Rightarrow> Inr (blob', ''mp3'')
                       | Inl e \<Rightarrow> Inl (''Failed to convert segment '' @ string_of_nat (index + 1)
                                         @ '' to MP3.''))
                 else Inr (blob segment, ''wav''))
                (\<lambda>(blob', extension).
                   zip_segments lamejs format segments (index + 1)
                     (zip' @ [(''sentence-'' @ string_of_nat (index + 1) @ ''.'' @ extension, blob')],
                      hasError))
      else Inr (zip', hasError))"
  by pat_completeness auto
termination
  by (relation "measure (\<lambda>(lamejs, format, segments, index, s). length segments - index)") auto

declare zip_segments.simps [simp del]

text \<open>
  \<open>generateAsync\<close> is the archive library: from the entries it gives the archive's bytes,
  or fails with a message.
\<close>

definition handleDownloadAll ::
  "'st Mp3Encoder option \<Rightarrow> ((string \<times> byte list) list \<Rightarrow> string + byte list) \<Rightarrow>
   App \<Rightarrow> format \<Rightarrow> App \<times> effect list" where
  "handleDownloadAll lamejs generateAsync app format =
     (if length (processedSegments app) = 0 then (app, [])
      else
        let app' = app\<lparr>isZipping := True, zipType := Some format\<rparr>;
            originalName =
              (case originalFile app of
                 None \<Rightarrow> ''audio''
               | Some name \<Rightarrow> if strip_extension name = [] then ''audio''
                              else strip_extension name);
            result =
              and_then (zip_segments lamejs format (processedSegments app) 0 ([], False))
                (\<lambda>(zip', hasError).
                   if \<not> hasError
                   then and_then (generateAsync zip') (\<lambda>content.
                          Inr [download (originalName @ ''-sentences-'' @ format_string format
                                           @ ''.zip'') content])
                   else Inr []);
            effects =
              (case result of
                 Inr effects \<Rightarrow> effects
               | Inl message \<Rightarrow>
                   [alert (''Failed to create '' @ format_toUpperCase format
                             @ '' zip file. Error: '' @ message)])
        in (app'\<lparr>isZipping := False, zipType := None\<rparr>, effects))"

section \<open>Properties of the quantisers\<close>

lemma js_trunc_bounds:
  "- 32768 \<le> x \<Longrightarrow> x \<le> 32767 \<Longrightarrow> - 32768 \<le> js_trunc x \<and> js_trunc x \<le> 32767"
  unfolding js_trunc_def
  by (auto simp: le_floor_iff ceiling_le_iff floor_le_iff le_ceiling_iff)

text \<open>
  What the two quantisers compute on a finite sample. \<open>floatTo16BitPCM\<close> follows the rule
  of the specification on every sample; the WAV encoder's inline code scales by 32768 only
  below \<open>-0.5\<close>, and so follows the rule on every sample outside \<open>[-0.5, 0)\<close>.
\<close>

lemma sint32_small:
  "- 32768 \<le> k \<Longrightarrow> k \<le> 32767 \<Longrightarrow> sint (word_of_int k :: 32 word) = k"
  by (simp add: sint_sbintrunc' signed_take_bit_int_eq_self)

lemma floatTo16BitPCM_rule:
  "floatTo16BitPCM (map Num xs) = map (\<lambda>s. word_of_int (quantize_spec s)) xs"
  by (auto simp: floatTo16BitPCM_def quantize_spec_def Let_def)

lemma wav_sample_general:
  "wav_sample (Num s) =
     js_trunc (if max (- 1) (min 1 s) < - (1 / 2) then max (- 1) (min 1 s) * 32768
               else max (- 1) (min 1 s) * 32767)"
proof -
  define v where "v = max (- 1) (min 1 s)"
  have b: "- 1 \<le> v" "v \<le> 1" by (simp_all add: v_def)
  have "- 32768 \<le> (if v < - (1 / 2) then v * 32768 else v * 32767)"
    "(if v < - (1 / 2) then v * 32768 else v * 32767) \<le> 32767"
    using b by auto
  from js_trunc_bounds[OF this]
  have "sint (word_of_int (js_trunc (if v < - (1 / 2) then v * 32768 else v * 32767)) :: 32 word)
        = js_trunc (if v < - (1 / 2) then v * 32768 else v * 32767)"
    by (intro sint32_small) simp_all
  then show ?thesis
    by (auto simp: wav_sample_def Let_def v_def[symmetric] split: if_splits)
qed

lemma wav_sample_rule:
  assumes "s < - (1 / 2) \<or> 0 \<le> s"
  shows "wav_sample (Num s) = quantize_spec s"
  unfolding wav_sample_general quantize_spec_def Let_def
  using assms by (auto simp: max_def min_def)

text \<open>Both quantisers agree with the rule at the ends of the range, beyond them and at zero.\<close>

lemma quantiser_boundary_values:
  "floatTo16BitPCM [Num 1, Num (- 1), Num 2, Num (- 2), Num 0, NaN] = [32767, - 32768, 32767, - 32768, 0, 0]"
  "map wav_sample [Num 1, Num (- 1), Num 2, Num (- 2), Num 0, NaN] = [32767, - 32768, 32767, - 32768, 0, 0]"
  by (simp_all add: floatTo16BitPCM_def wav_sample_def js_trunc_def)

text \<open>
  C1. The quantisation rule (clamp to \<open>[-1, 1]\<close>, scale a negative value by 32768 and
  any other by 32767, drop the fraction) is meant to hold in both encoders. The WAV
  encoder's inline code departs from it: at the sample \<open>-0.5\<close> the test
  \<open>0.5 + sample < 0\<close> is false, the sample is scaled by 32767 and \<open>-16383\<close> is written,
  where the rule gives \<open>-16384\<close>.
\<close>

theorem wav_sample_departs_from_rule:
  "wav_sample (Num (- 0.5)) = - 16383 \<and> quantize_spec (- 0.5) = - 16384"
  by (simp add: wav_sample_def quantize_spec_def js_trunc_def)

text \<open>
  C8. Both encoders are meant to write the same 16-bit integer for the same sample. At the
  sample \<open>-0.25\<close> the WAV encoder writes \<open>-8191\<close> and \<open>floatTo16BitPCM\<close> gives \<open>-8192\<close>.
\<close>

theorem wav_sample_differs_from_floatTo16BitPCM:
  "(word_of_int (wav_sample (Num (- 0.25))) :: 16 word) = - 8191 \<and>
   floatTo16BitPCM [Num (- 0.25)] = [- 8192]"
  by (simp add: wav_sample_def floatTo16BitPCM_def js_trunc_def)

section \<open>Properties of sliceAudioBuffer\<close>

lemma length_copy_range [simp]:
  "length (copy_range oldData startOffset frameCount i newData) = length newData"
  by (induction oldData startOffset frameCount i newData rule: copy_range.induct)
     (subst copy_range.simps, simp)

lemma copy_channels_shape:
  "numberOfChannels newBuffer = numberOfChannels buffer \<Longrightarrow>
   \<exists>b'. copy_channels buffer startOffset frameCount channel newBuffer = Inr b' \<and>
        sampleRate b' = sampleRate newBuffer \<and> length_ab b' = length_ab newBuffer \<and>
        numberOfChannels b' = numberOfChannels newBuffer"
proof (induction buffer startOffset frameCount channel newBuffer rule: copy_channels.induct)
  case (1 buffer startOffset frameCount channel newBuffer)
  show ?case
  proof (cases "channel < numberOfChannels buffer")
    case True
    let ?nb = "newBuffer\<lparr>channelData := (channelData newBuffer)
                  [channel := copy_range (channelData buffer ! channel) startOffset frameCount 0
                     (channelData newBuffer ! channel)]\<rparr>"
    have "numberOfChannels ?nb = numberOfChannels buffer"
      using "1.prems" by (simp add: numberOfChannels_def)
    from "1.IH"[OF True this] True "1.prems"
    show ?thesis
      by (subst copy_channels.simps) (simp add: getChannelData_def numberOfChannels_def)
  next
    case False
    then show ?thesis by (subst copy_channels.simps) simp
  qed
qed

lemma sliceAudioBuffer_frames:
  assumes "0 < numberOfChannels b" "0 < sampleRate b"
  shows "\<exists>b'. sliceAudioBuffer rnd b s e = Inr b' \<and>
           sampleRate b' = sampleRate b \<and> numberOfChannels b' = numberOfChannels b \<and>
           int (length_ab b') =
             (let frameCount = min (int (length_ab b)) \<lceil>rnd (e * real (sampleRate b))\<rceil>
                               - max 0 \<lfloor>rnd (s * real (sampleRate b))\<rfloor>
              in if frameCount \<le> 0 then 1 else frameCount)"
proof -
  define so where "so = max 0 \<lfloor>rnd (s * real (sampleRate b))\<rfloor>"
  define fc where "fc = min (int (length_ab b)) \<lceil>rnd (e * real (sampleRate b))\<rceil> - so"
  have slice: "sliceAudioBuffer rnd b s e =
      (if fc \<le> 0 then createBuffer (numberOfChannels b) 1 (sampleRate b)
       else and_then (createBuffer (numberOfChannels b) (nat fc) (sampleRate b))
              (copy_channels b (nat so) (nat fc) 0))"
    by (simp add: sliceAudioBuffer_def Let_def fc_def so_def)
  have "\<exists>b'. sliceAudioBuffer rnd b s e = Inr b' \<and>
           sampleRate b' = sampleRate b \<and> numberOfChannels b' = numberOfChannels b \<and>
           int (length_ab b') = (if fc \<le> 0 then 1 else fc)"
  proof (cases "fc \<le> 0")
    case True
    then show ?thesis using assms unfolding slice
      by (simp add: createBuffer_def numberOfChannels_def)
  next
    case False
    define nb where "nb = \<lparr>sampleRate = sampleRate b, length_ab = nat fc,
                channelData = replicate (numberOfChannels b) (replicate (nat fc) (Num 0))\<rparr>"
    have nb: "createBuffer (numberOfChannels b) (nat fc) (sampleRate b) = Inr nb"
      using False assms by (simp add: createBuffer_def nb_def)
    have ch: "numberOfChannels nb = numberOfChannels b"
      by (simp add: numberOfChannels_def nb_def)
    obtain b' where b': "copy_channels b (nat so) (nat fc) 0 nb = Inr b'"
      "sampleRate b' = sampleRate nb" "length_ab b' = length_ab nb"
      "numberOfChannels b' = numberOfChannels nb"
      using copy_channels_shape[OF ch] by blast
    have "sliceAudioBuffer rnd b s e = Inr b'"
      unfolding slice using False nb b'(1) by simp
    moreover have "sampleRate b' = sampleRate b" "length_ab b' = nat fc"
      using b' by (simp_all add: nb_def)
    ultimately show ?thesis using False b'(4) ch
      by simp
  qed
  then show ?thesis
    unfolding Let_def fc_def so_def .
qed

text \<open>
  The samples of a slice that is not degenerate: in every channel, the frames from the
  start frame up to the end frame, unchanged.
\<close>

lemma copy_range_samples:
  "n = frameCount - i \<Longrightarrow> i \<le> frameCount \<Longrightarrow> length newData = frameCount \<Longrightarrow>
   copy_range oldData startOffset frameCount i newData
   = take i newData @ map (\<lambda>j. nth_js oldData (j + startOffset)) [i..<frameCount]"
proof (induction n arbitrary: i newData)
  case 0
  then show ?case by (subst copy_range.simps) simp
next
  case (Suc n)
  then have i: "i < frameCount" and n: "n = frameCount - (i + 1)" by simp_all
  have "copy_range oldData startOffset frameCount (i + 1)
          (newData[i := nth_js oldData (i + startOffset)])
        = take (i + 1) (newData[i := nth_js oldData (i + startOffset)])
            @ map (\<lambda>j. nth_js oldData (j + startOffset)) [i + 1..<frameCount]"
    using Suc.prems i by (intro Suc.IH[OF n]) simp_all
  also have "take (i + 1) (newData[i := nth_js oldData (i + startOffset)])
             = take i newData @ [nth_js oldData (i + startOffset)]"
    using i Suc.prems(3) by (simp add: take_Suc_conv_app_nth)
  finally show ?case
    using i by (subst copy_range.simps) (simp add: upt_conv_Cons)
qed

lemma copy_channels_samples:
  "n = numberOfChannels buffer - channel \<Longrightarrow> channel \<le> numberOfChannels buffer \<Longrightarrow>
   numberOfChannels newBuffer = numberOfChannels buffer \<Longrightarrow>
   list_all (\<lambda>ch. length ch = frameCount) (channelData newBuffer) \<Longrightarrow>
   copy_channels buffer startOffset frameCount channel newBuffer
   = Inr (newBuffer\<lparr>channelData :=
            take channel (channelData newBuffer)
            @ map (\<lambda>oldData. map (\<lambda>j. nth_js oldData (j + startOffset)) [0..<frameCount])
                (drop channel (channelData buffer))\<rparr>)"
proof (induction n arbitrary: channel newBuffer)
  case 0
  then show ?case
    by (subst copy_channels.simps) (simp add: numberOfChannels_def)
next
  case (Suc n)
  then have c: "channel < numberOfChannels buffer"
    and n: "n = numberOfChannels buffer - (channel + 1)" by simp_all
  define row where "row = map (\<lambda>j. nth_js (channelData buffer ! channel) (j + startOffset)) [0..<frameCount]"
  define nb where "nb = newBuffer\<lparr>channelData := (channelData newBuffer)[channel := row]\<rparr>"
  have len: "length (channelData newBuffer ! channel) = frameCount"
    using Suc.prems(3,4) c by (simp add: list_all_length numberOfChannels_def)
  have cr: "copy_range (channelData buffer ! channel) startOffset frameCount 0
              (channelData newBuffer ! channel) = row"
    using copy_range_samples[OF refl _ len, of 0 "channelData buffer ! channel" startOffset]
    by (simp add: row_def)
  have nbc: "numberOfChannels nb = numberOfChannels buffer"
    using Suc.prems(3) by (simp add: nb_def numberOfChannels_def)
  have nba: "list_all (\<lambda>ch. length ch = frameCount) (channelData nb)"
    using Suc.prems(4) by (auto simp: nb_def row_def list_all_iff dest: set_update_subset_insert[THEN subsetD])
  have c1: "channel + 1 \<le> numberOfChannels buffer" using c by simp
  note IH = Suc.IH[OF n c1 nbc nba]
  have tk: "take (channel + 1) (channelData nb) = take channel (channelData newBuffer) @ [row]"
    using c Suc.prems(3)
    by (simp add: nb_def numberOfChannels_def take_Suc_conv_app_nth)
  have dr: "drop channel (channelData buffer)
            = channelData buffer ! channel # drop (channel + 1) (channelData buffer)"
    using c by (simp add: numberOfChannels_def Cons_nth_drop_Suc)
  have "copy_channels buffer startOffset frameCount channel newBuffer
        = copy_channels buffer startOffset frameCount (channel + 1) nb"
    using c Suc.prems(3)
    by (subst copy_channels.simps) (simp add: getChannelData_def cr nb_def)
  also have "\<dots> = Inr (nb\<lparr>channelData :=
            take (channel + 1) (channelData nb)
            @ map (\<lambda>oldData. map (\<lambda>j. nth_js oldData (j + startOffset)) [0..<frameCount])
                (drop (channel + 1) (channelData buffer))\<rparr>)"
    by (rule IH)
  finally show ?case
    unfolding tk dr by (simp add: nb_def row_def)
qed

lemma map_nth_js_take_drop:
  "startOffset + frameCount \<le> length ch \<Longrightarrow>
   map (\<lambda>j. nth_js ch (j + startOffset)) [0..<frameCount] = take frameCount (drop startOffset ch)"
  by (auto simp: list_eq_iff_nth_eq nth_js_def add.commute)

lemma sliceAudioBuffer_samples:
  assumes "structurally_valid b" and "0 < numberOfChannels b" and "0 < sampleRate b"
    and "startOffset = max 0 \<lfloor>rnd (s * real (sampleRate b))\<rfloor>"
    and "endOffset = min (int (length_ab b)) \<lceil>rnd (e * real (sampleRate b))\<rceil>"
    and "startOffset < endOffset"
  shows "sliceAudioBuffer rnd b s e
         = Inr \<lparr>sampleRate = sampleRate b, length_ab = nat (endOffset - startOffset),
                channelData = map (\<lambda>ch. take (nat (endOffset - startOffset))
                                           (drop (nat startOffset) ch)) (channelData b)\<rparr>"
proof -
  define fc where "fc = nat (endOffset - startOffset)"
  define so where "so = nat startOffset"
  define nb where "nb = \<lparr>sampleRate = sampleRate b, length_ab = fc,
                channelData = replicate (numberOfChannels b) (replicate fc (Num 0))\<rparr>"
  have fc: "0 < fc" using assms(6) by (simp add: fc_def)
  have cb: "createBuffer (numberOfChannels b) fc (sampleRate b) = Inr nb"
    using fc assms(2,3) by (simp add: createBuffer_def nb_def)
  have "0 \<le> startOffset" "endOffset \<le> int (length_ab b)"
    using assms(4,5) by simp_all
  then have bound: "so + fc \<le> length_ab b"
    using assms(6) unfolding so_def fc_def by linarith
  have rows: "map (\<lambda>oldData. map (\<lambda>j. nth_js oldData (j + so)) [0..<fc]) (channelData b)
              = map (\<lambda>ch. take fc (drop so ch)) (channelData b)"
    using assms(1) bound
    by (intro map_cong refl map_nth_js_take_drop) (simp add: structurally_valid_def list_all_iff)
  have "copy_channels b so fc 0 nb
        = Inr (nb\<lparr>channelData := map (\<lambda>ch. take fc (drop so ch)) (channelData b)\<rparr>)"
    using copy_channels_samples[OF refl, of 0 b nb fc so]
    by (simp add: nb_def numberOfChannels_def rows list_all_iff)
  moreover have "sliceAudioBuffer rnd b s e
                 = (if endOffset - startOffset \<le> 0
                    then createBuffer (numberOfChannels b) 1 (sampleRate b)
                    else and_then (createBuffer (numberOfChannels b) fc (sampleRate b))
                           (copy_channels b so fc 0))"
    unfolding sliceAudioBuffer_def Let_def fc_def so_def assms(4,5) ..
  moreover have "\<not> endOffset - startOffset \<le> 0" using assms(6) by simp
  ultimately have "sliceAudioBuffer rnd b s e
                   = Inr (nb\<lparr>channelData := map (\<lambda>ch. take fc (drop so ch)) (channelData b)\<rparr>)"
    by (simp add: cb)
  then show ?thesis
    by (simp add: nb_def fc_def so_def)
qed

text \<open>
  C2. For a buffer of \<open>N\<close> frames at rate \<open>R\<close> and a range \<open>0 \<le> start < end \<le> N / R\<close>,
  the slice has \<open>ceil(end * R) - floor(start * R)\<close> frames, clamped to \<open>[1, N]\<close>; the start
  and end frames are the floor and the ceiling themselves. The products are the rounded
  ones the code computes; the rounding is monotone and leaves \<open>0\<close> and \<open>N\<close> alone, as
  rounding to the nearest double does. Unless rounding makes the two products equal, the
  clamp changes nothing.
\<close>

theorem slice_frameCount_within_buffer:
  assumes "0 < numberOfChannels b"
    and "mono rnd" and "rnd 0 = 0" and "rnd (real (length_ab b)) = real (length_ab b)"
    and "0 \<le> s" and "s < e" and "e \<le> real (length_ab b) / real (sampleRate b)"
  shows "\<exists>b'. sliceAudioBuffer rnd b s e = Inr b' \<and>
           int (length_ab b') =
             max 1 (min (int (length_ab b))
               (\<lceil>rnd (e * real (sampleRate b))\<rceil> - \<lfloor>rnd (s * real (sampleRate b))\<rfloor>)) \<and>
           max 0 \<lfloor>rnd (s * real (sampleRate b))\<rfloor> = \<lfloor>rnd (s * real (sampleRate b))\<rfloor> \<and>
           min (int (length_ab b)) \<lceil>rnd (e * real (sampleRate b))\<rceil>
             = \<lceil>rnd (e * real (sampleRate b))\<rceil> \<and>
           (rnd (s * real (sampleRate b)) < rnd (e * real (sampleRate b)) \<longrightarrow>
              int (length_ab b') =
                \<lceil>rnd (e * real (sampleRate b))\<rceil> - \<lfloor>rnd (s * real (sampleRate b))\<rfloor>)"
proof -
  define R where "R = real (sampleRate b)"
  define N where "N = length_ab b"
  have e0: "0 < e" using assms(5,6) by simp
  have Rpos: "0 < R"
  proof (rule ccontr)
    assume "\<not> 0 < R"
    then have "R = 0" by (simp add: R_def)
    with assms(7) e0 show False by (simp add: R_def)
  qed
  have eR: "e * R \<le> real N"
    using assms(7) Rpos by (simp add: R_def N_def pos_le_divide_eq)
  have sR: "0 \<le> s * R" using assms(5) Rpos by simp
  have lt: "s * R \<le> e * R" using assms(6) Rpos by simp
  have lo: "0 \<le> rnd (s * R)" using monoD[OF assms(2) sR] assms(3) by simp
  have hi: "rnd (e * R) \<le> real N" using monoD[OF assms(2) eR] assms(4) by (simp add: N_def)
  have mid: "rnd (s * R) \<le> rnd (e * R)" using monoD[OF assms(2) lt] .
  define F where "F = \<lfloor>rnd (s * R)\<rfloor>"
  define C where "C = \<lceil>rnd (e * R)\<rceil>"
  have f0: "0 \<le> F" using lo by (simp add: F_def)
  have cN: "C \<le> int N" using hi by (simp add: ceiling_le_iff C_def)
  have fc: "F \<le> C"
    unfolding F_def C_def using mid by (meson floor_le_ceiling floor_mono order_trans)
  have strict: "rnd (s * R) < rnd (e * R) \<Longrightarrow> F < C"
    unfolding F_def C_def by (simp add: floor_less_iff less_ceiling_iff) linarith
  have Rnat: "0 < sampleRate b" using Rpos by (simp add: R_def)
  obtain b' where b': "sliceAudioBuffer rnd b s e = Inr b'"
    "int (length_ab b') =
       (let frameCount = min (int N) C - max 0 F
        in if frameCount \<le> 0 then 1 else frameCount)"
    using sliceAudioBuffer_frames[OF assms(1) Rnat, of rnd s e]
    unfolding R_def N_def F_def C_def by blast
  have len: "int (length_ab b') = max 1 (min (int N) (C - F))"
    using b'(2) f0 cN fc by (simp add: Let_def max_def min_def)
  have len': "rnd (s * R) < rnd (e * R) \<Longrightarrow> int (length_ab b') = C - F"
    using len strict f0 cN by (simp add: max_def min_def)
  have "max 0 F = F" "min (int N) C = C" using f0 cN by simp_all
  with b'(1) len len' show ?thesis
    unfolding R_def[symmetric] N_def[symmetric] F_def[symmetric] C_def[symmetric] by blast
qed

theorem slice_frameCount_within_buffer_witness:
  "mono (id :: real \<Rightarrow> real) \<and> (0 :: real) \<le> 1 / 256 \<and> (1 / 256 :: real) < 3 / 256 \<and>
   (3 / 256 :: real) \<le> 8000 / 8000 \<and>
   map_sum id length_ab
     (sliceAudioBuffer id
        \<lparr>sampleRate = 8000, length_ab = 8000, channelData = [replicate 8000 (Num 0)]\<rparr>
        (1 / 256) (3 / 256)) = Inr 63"
proof -
  have m: "mono (id :: real \<Rightarrow> real)" by (simp add: mono_def)
  have c: "0 < numberOfChannels
             \<lparr>sampleRate = 8000, length_ab = 8000, channelData = [replicate 8000 (Num 0)]\<rparr>"
    by (simp add: numberOfChannels_def)
  from slice_frameCount_within_buffer[OF c m, of "1 / 256" "3 / 256"] m
  show ?thesis by auto
qed

text \<open>
  C5. When the computed frame range is empty or inverted, the slice is one frame of
  silence per channel at the source's sample rate, and nothing is thrown. The buffer is one
  the host made: it has a channel and a positive sample rate.
\<close>

theorem slice_degenerate_range:
  assumes "0 < numberOfChannels b" and "0 < sampleRate b"
    and "min (int (length_ab b)) \<lceil>rnd (e * real (sampleRate b))\<rceil>
           - max 0 \<lfloor>rnd (s * real (sampleRate b))\<rfloor> \<le> 0"
  shows "sliceAudioBuffer rnd b s e =
           Inr \<lparr>sampleRate = sampleRate b, length_ab = 1,
                channelData = replicate (numberOfChannels b) [Num 0]\<rparr>"
  using assms by (simp add: sliceAudioBuffer_def createBuffer_def Let_def)

theorem slice_degenerate_range_witness:
  "sliceAudioBuffer id
     \<lparr>sampleRate = 8000, length_ab = 48000, channelData = [replicate 48000 (Num 0.5)]\<rparr> 5 5
   = Inr \<lparr>sampleRate = 8000, length_ab = 1, channelData = [[Num 0]]\<rparr>"
  using slice_degenerate_range
          [of "\<lparr>sampleRate = 8000, length_ab = 48000, channelData = [replicate 48000 (Num 0.5)]\<rparr>"
              id 5 5]
  by (simp add: numberOfChannels_def)

text \<open>At the instant \<open>5.0\<close> the range is empty on every buffer of the host, however long.\<close>

lemma slice_same_instant:
  assumes "0 < numberOfChannels b" and "0 < sampleRate b"
    and "rnd (5 * real (sampleRate b)) = 5 * real (sampleRate b)"
  shows "sliceAudioBuffer rnd b 5 5 =
           Inr \<lparr>sampleRate = sampleRate b, length_ab = 1,
                channelData = replicate (numberOfChannels b) [Num 0]\<rparr>"
proof -
  have "5 * real (sampleRate b) = of_int (5 * int (sampleRate b))" by simp
  then have "\<lfloor>rnd (5 * real (sampleRate b))\<rfloor> = 5 * int (sampleRate b)"
    "\<lceil>rnd (5 * real (sampleRate b))\<rceil> = 5 * int (sampleRate b)"
    unfolding assms(3) by (simp_all only: floor_of_int ceiling_of_int)
  then show ?thesis
    using assms(1,2) by (simp add: sliceAudioBuffer_def createBuffer_def Let_def)
qed

text \<open>
  C7, as the code has it. For a buffer of \<open>N \<ge> 1\<close> frames and any boundary, the slice has
  \<open>min(N, ceil(end * R)) - max(0, floor(start * R))\<close> frames, or one frame when that
  difference is not positive; it is never empty and never longer than the source.
\<close>

theorem slice_frameCount_any_boundary:
  assumes "0 < numberOfChannels b" and "0 < sampleRate b" and "0 < length_ab b"
  shows "\<exists>b'. sliceAudioBuffer rnd b s e = Inr b' \<and>
           int (length_ab b') =
             max 1 (min (int (length_ab b)) \<lceil>rnd (e * real (sampleRate b))\<rceil>
                    - max 0 \<lfloor>rnd (s * real (sampleRate b))\<rfloor>) \<and>
           1 \<le> length_ab b' \<and> length_ab b' \<le> length_ab b"
proof -
  define F where "F = \<lfloor>rnd (s * real (sampleRate b))\<rfloor>"
  define C where "C = \<lceil>rnd (e * real (sampleRate b))\<rceil>"
  obtain b' where b': "sliceAudioBuffer rnd b s e = Inr b'"
    "int (length_ab b') =
       (let frameCount = min (int (length_ab b)) C - max 0 F
        in if frameCount \<le> 0 then 1 else frameCount)"
    using sliceAudioBuffer_frames[OF assms(1,2), of rnd s e] unfolding F_def C_def by blast
  have len: "int (length_ab b') = max 1 (min (int (length_ab b)) C - max 0 F)"
    using b'(2) by (simp add: Let_def max_def)
  have "1 \<le> int (length_ab b')" "int (length_ab b') \<le> int (length_ab b)"
    using len assms(3) by (simp_all add: max_def min_def)
  then have "1 \<le> length_ab b'" "length_ab b' \<le> length_ab b" by simp_all
  with b'(1) len show ?thesis
    unfolding F_def[symmetric] C_def[symmetric] by blast
qed

theorem slice_frameCount_any_boundary_witness:
  "map_sum id length_ab
     (sliceAudioBuffer id
        \<lparr>sampleRate = 8000, length_ab = 8000, channelData = [replicate 8000 (Num 0)]\<rparr>
        (1 / 2) 20) = Inr 4000"
proof -
  have "0 < numberOfChannels
             \<lparr>sampleRate = 8000, length_ab = 8000, channelData = [replicate 8000 (Num 0)]\<rparr>"
    by (simp add: numberOfChannels_def)
  from slice_frameCount_any_boundary[OF this, of id "1 / 2" 20]
  show ?thesis by auto
qed

text \<open>
  C7 as stated, with a rounded end frame, fails. The end frame is a ceiling: on one second at
  8000 Hz the range from \<open>0\<close> to \<open>1/256\<close> seconds, which ends at frame \<open>31.25\<close>, gives 32
  frames, where rounding would give 31.
\<close>

theorem slice_frameCount_not_rounded:
  "map_sum id length_ab
     (sliceAudioBuffer id
        \<lparr>sampleRate = 8000, length_ab = 8000, channelData = [replicate 8000 (Num 0)]\<rparr>
        0 (1 / 256)) = Inr 32 \<and>
   max 1 (min 8000 (round (1 / 256 * 8000 :: real) - \<lfloor>0 * 8000 :: real\<rfloor>)) = 31"
proof -
  have "0 < numberOfChannels
             \<lparr>sampleRate = 8000, length_ab = 8000, channelData = [replicate 8000 (Num 0)]\<rparr>"
    by (simp add: numberOfChannels_def)
  from sliceAudioBuffer_frames[OF this, of id 0 "1 / 256"]
  show ?thesis by (auto simp: round_def)
qed

section \<open>Properties of audioBufferToWav\<close>

lemma length_le16 [simp]: "length (le16 w) = 2"
  by (simp add: le16_def)

lemma length_le32 [simp]: "length (le32 w) = 4"
  by (simp add: le32_def)

lemma store_bytes_zeros:
  "length bs \<le> k \<Longrightarrow> store_bytes (pre @ replicate k 0) (length pre) bs = (pre @ bs) @ replicate (k - length bs) 0"
  by (simp add: store_bytes_def)

lemma setUint32_wstate:
  "4 \<le> k \<Longrightarrow> setUint32 x (wstate pre k) = Inr (wstate (pre @ le32 (word_of_int x)) (k - 4))"
  by (simp add: setUint32_def wstate_def DataView_setUint32_def store_bytes_def)

lemma setUint16_wstate:
  "2 \<le> k \<Longrightarrow> setUint16 x (wstate pre k) = Inr (wstate (pre @ le16 (word_of_int x)) (k - 2))"
  by (simp add: setUint16_def wstate_def DataView_setUint16_def store_bytes_def)

lemma snd_wstate: "snd (wstate pre k) = length pre"
  by (simp add: wstate_def)

lemma chunk_tags:
  "le32 0x46464952 = map (of_nat \<circ> of_char) ''RIFF''"
  "le32 0x45564157 = map (of_nat \<circ> of_char) ''WAVE''"
  "le32 0x20746d66 = map (of_nat \<circ> of_char) ''fmt ''"
  "le32 0x61746164 = map (of_nat \<circ> of_char) ''data''"
  by (simp_all add: le32_def)

lemma header_run:
  "run [setUint32 0x46464952,
                 setUint32 (int L * int C * 2 + 44 - 8),
                 setUint32 0x45564157,
                 setUint32 0x20746d66,
                 setUint32 16,
                 setUint16 1,
                 setUint16 (int C),
                 setUint32 (int S),
                 setUint32 (int S * 2 * int C),
                 setUint16 (int C * 2),
                 setUint16 16,
                 setUint32 0x61746164,
                 (\<lambda>s. setUint32 (int L * int C * 2 + 44 - int (snd s) - 4) s)]
              (wstate [] (44 + n)) = Inr (wstate (wav_header_spec C S L) n)"
  apply (simp add: setUint32_wstate setUint16_wstate snd_wstate)
  apply (simp add: wav_header_spec_def chunk_tags mult.commute)
  done

lemma length_frame_bytes [simp]: "length (frame_bytes channels pos) = 2 * length channels"
  by (simp add: frame_bytes_def length_concat o_def sum_list_triv)

lemma setInt16_zeros:
  assumes "length H = 44" "2 \<le> k"
  shows "DataView_setInt16 (H @ W @ replicate k 0) (44 + length W) x
         = Inr (H @ (W @ le16 (word_of_int x)) @ replicate (k - 2) 0)"
  using assms by (simp add: DataView_setInt16_def store_bytes_def)

lemma wav_frame_zeros:
  assumes "length H = 44"
  shows "n = length channels - i \<Longrightarrow> i \<le> length channels \<Longrightarrow> 2 * n \<le> k \<Longrightarrow>
         wav_frame channels (length channels) pos i (H @ W @ replicate k 0, length W)
         = Inr (H @ (W @ concat (map (\<lambda>ch. le16 (word_of_int (wav_sample (nth_js ch pos))))
                                   (drop i channels)))
                  @ replicate (k - 2 * n) 0, length W + 2 * n)"
proof (induction n arbitrary: i W k)
  case 0
  then show ?case by (subst wav_frame.simps) simp
next
  case (Suc n)
  then have i: "i < length channels" and k: "2 \<le> k" by simp_all
  have n: "n = length channels - (i + 1)" using Suc.prems by simp
  have step: "wav_frame channels (length channels) pos (i + 1)
                (H @ (W @ le16 (word_of_int (wav_sample (nth_js (channels ! i) pos))))
                   @ replicate (k - 2) 0,
                 length (W @ le16 (word_of_int (wav_sample (nth_js (channels ! i) pos)))))
              = Inr (H @ ((W @ le16 (word_of_int (wav_sample (nth_js (channels ! i) pos))))
                          @ concat (map (\<lambda>ch. le16 (word_of_int (wav_sample (nth_js ch pos))))
                                     (drop (i + 1) channels)))
                       @ replicate (k - 2 - 2 * n) 0,
                     length (W @ le16 (word_of_int (wav_sample (nth_js (channels ! i) pos))))
                       + 2 * n)"
    using Suc.prems by (intro Suc.IH[OF n]) simp_all
  have d: "drop i channels = channels ! i # drop (i + 1) channels"
    using i by (simp add: Cons_nth_drop_Suc)
  show ?case
    apply (subst wav_frame.simps)
    using i k step by (simp add: setInt16_zeros[OF assms k] d)
qed

lemma wav_loop_zeros:
  assumes "length H = 44"
  shows "n = length_ab b - pos \<Longrightarrow> 2 * length channels * n \<le> k \<Longrightarrow>
         wav_loop b channels (length channels) pos (H @ W @ replicate k 0, length W)
         = Inr (H @ (W @ concat (map (frame_bytes channels) [pos..<length_ab b]))
                  @ replicate (k - 2 * length channels * n) 0,
                length W + 2 * length channels * n)"
proof (induction n arbitrary: pos W k)
  case 0
  then show ?case by (subst wav_loop.simps) simp
next
  case (Suc n)
  then have pos: "pos < length_ab b" by simp
  have n: "n = length_ab b - (pos + 1)" using Suc.prems by simp
  have k: "2 * length channels \<le> k" "2 * length channels * n \<le> k - 2 * length channels"
    using Suc.prems(2) by (simp_all add: algebra_simps)
  have fr: "wav_frame channels (length channels) pos 0 (H @ W @ replicate k 0, length W)
            = Inr (H @ (W @ frame_bytes channels pos) @ replicate (k - 2 * length channels) 0,
                   length (W @ frame_bytes channels pos))"
  proof -
    have "length (frame_bytes channels pos) = 2 * length channels"
      by (simp add: frame_bytes_def length_concat o_def sum_list_triv)
    then show ?thesis
      using wav_frame_zeros[OF assms, of "length channels" channels 0 k pos W] k(1)
      by (simp add: frame_bytes_def)
  qed
  have len: "length (W @ frame_bytes channels pos) = length W + 2 * length channels"
    by (simp add: frame_bytes_def length_concat o_def sum_list_triv)
  have up: "[pos..<length_ab b] = pos # [pos + 1..<length_ab b]"
    using pos by (simp add: upt_conv_Cons)
  note step = Suc.IH[OF n k(2), of "W @ frame_bytes channels pos"]
  show ?case
    apply (subst wav_loop.simps)
    apply (simp only: pos if_True fr and_then.simps step)
    apply (simp add: up algebra_simps)
    done
qed

lemma push_channels_drop:
  "n = numberOfChannels b - i \<Longrightarrow> i \<le> numberOfChannels b \<Longrightarrow>
   push_channels b i acc = Inr (acc @ drop i (channelData b))"
proof (induction n arbitrary: i acc)
  case 0
  then show ?case by (subst push_channels.simps) (simp add: numberOfChannels_def)
next
  case (Suc n)
  then have i: "i < numberOfChannels b" by simp
  have "n = numberOfChannels b - (i + 1)" "i + 1 \<le> numberOfChannels b" using Suc.prems by simp_all
  from Suc.IH[OF this] i show ?case
    by (subst push_channels.simps)
       (simp add: getChannelData_def numberOfChannels_def Cons_nth_drop_Suc)
qed

lemma audioBufferToWav_bytes:
  "audioBufferToWav b =
     Inr (wav_header_spec (numberOfChannels b) (sampleRate b) (length_ab b)
          @ concat (map (frame_bytes (channelData b)) [44..<length_ab b])
          @ replicate (2 * numberOfChannels b * min 44 (length_ab b)) 0)"
proof -
  define C where "C = numberOfChannels b"
  define L where "L = length_ab b"
  define H where "H = wav_header_spec C (sampleRate b) L"
  have lenH: "length H = 44" by (simp add: H_def wav_header_spec_def)
  have alloc: "(replicate (nat (int L * int C * 2 + 44)) (0 :: byte), 0 :: nat)
               = wstate [] (44 + 2 * C * L)"
    by (simp add: wstate_def nat_add_distrib nat_mult_distrib algebra_simps)
  have ch: "push_channels b 0 [] = Inr (channelData b)"
    using push_channels_drop[of "numberOfChannels b" b 0 "[]"] by simp
  have k: "2 * length (channelData b) * (length_ab b - 44) \<le> 2 * C * L"
    by (simp add: C_def L_def numberOfChannels_def)
  have loop: "wav_loop b (channelData b) C 44 (H @ replicate (2 * C * L) 0, 0)
              = Inr (H @ concat (map (frame_bytes (channelData b)) [44..<L])
                       @ replicate (2 * C * L - 2 * C * (L - 44)) 0, 2 * C * (L - 44))"
    using wav_loop_zeros[OF lenH refl k, of "[]"]
    by (simp add: C_def L_def numberOfChannels_def)
  have z: "2 * C * L - 2 * C * (L - 44) = 2 * C * min 44 L"
    by (cases "44 \<le> L") (simp_all add: min_def algebra_simps)
  show ?thesis
    unfolding audioBufferToWav_def Let_def C_def[symmetric] L_def[symmetric] alloc header_run
    by (simp add: wstate_def lenH ch loop z H_def[symmetric])
qed

text \<open>
  The length and the header are as specified: two channels of 100 frames at 44100 Hz give
  444 bytes, a byte rate of 176400 and a block align of 4.
\<close>

lemma wav_header_example:
  assumes "numberOfChannels b = 2" and "sampleRate b = 44100" and "length_ab b = 100"
  shows "\<exists>bytes. audioBufferToWav b = Inr bytes \<and> length bytes = 444 \<and>
           take 4 (drop 28 bytes) = le32 176400 \<and> take 2 (drop 32 bytes) = le16 4"
proof -
  have "length (concat (map (frame_bytes (channelData b)) [44..<length_ab b])) = 224"
    using assms by (simp add: length_concat o_def sum_list_triv numberOfChannels_def)
  then show ?thesis
    unfolding audioBufferToWav_bytes using assms
    by (simp add: wav_header_spec_def le32_def le16_def)
qed

text \<open>
  C3. The encoder is meant to write, after the header, every frame of the buffer in
  increasing order. On one frame holding the sample \<open>1\<close> the header is as specified, but
  the data chunk holds \<open>00 00\<close> where the specified stream holds \<open>FF 7F\<close>: the sample loop
  starts at frame 44, where the header left the cursor.
\<close>

theorem audioBufferToWav_skips_first_frames:
  "audioBufferToWav \<lparr>sampleRate = 44100, length_ab = 1, channelData = [[Num 1]]\<rparr>
     = Inr (wav_header_spec 1 44100 1 @ [0, 0]) \<and>
   wav_spec \<lparr>sampleRate = 44100, length_ab = 1, channelData = [[Num 1]]\<rparr>
     = wav_header_spec 1 44100 1 @ [0xFF, 0x7F]"
proof
  show "audioBufferToWav \<lparr>sampleRate = 44100, length_ab = 1, channelData = [[Num 1]]\<rparr>
          = Inr (wav_header_spec 1 44100 1 @ [0, 0])"
    using audioBufferToWav_bytes
            [of "\<lparr>sampleRate = 44100, length_ab = 1, channelData = [[Num 1]]\<rparr>"]
    by (simp add: numberOfChannels_def numeral_2_eq_2)
  show "wav_spec \<lparr>sampleRate = 44100, length_ab = 1, channelData = [[Num 1]]\<rparr>
          = wav_header_spec 1 44100 1 @ [0xFF, 0x7F]"
    by (simp add: numberOfChannels_def wav_spec_def nth_js_def quantize_spec_def js_trunc_def
          le16_def)
qed

text \<open>
  C9. The encoder returns a byte stream for every buffer, of \<open>length * channels * 2 + 44\<close>
  bytes, and never throws; for a buffer of no frames the stream is the 44-byte header
  alone, with a data chunk of length zero.
\<close>

theorem audioBufferToWav_total:
  "\<exists>bytes. audioBufferToWav b = Inr bytes \<and>
      length bytes = length_ab b * numberOfChannels b * 2 + 44 \<and>
      (length_ab b = 0 \<longrightarrow>
         bytes = wav_header_spec (numberOfChannels b) (sampleRate b) 0 \<and>
         drop 40 bytes = le32 0)"
proof -
  have h: "length (wav_header_spec (numberOfChannels b) (sampleRate b) (length_ab b)) = 44"
    by (simp add: wav_header_spec_def)
  have l: "length (concat (map (frame_bytes (channelData b)) [44..<length_ab b]))
                   + 2 * numberOfChannels b * min 44 (length_ab b)
                 = length_ab b * numberOfChannels b * 2"
    by (cases "44 \<le> length_ab b")
       (simp_all add: length_concat o_def sum_list_triv min_def algebra_simps
          numberOfChannels_def)
  have d: "drop 40 (wav_header_spec C S 0) = le32 0" for C S
    by (simp add: wav_header_spec_def)
  show ?thesis
    unfolding audioBufferToWav_bytes
    using h l d by simp
qed

theorem audioBufferToWav_total_witness:
  "audioBufferToWav \<lparr>sampleRate = 44100, length_ab = 0, channelData = [[], []]\<rparr>
   = Inr [0x52, 0x49, 0x46, 0x46, 0x24, 0, 0, 0, 0x57, 0x41, 0x56, 0x45,
          0x66, 0x6D, 0x74, 0x20, 0x10, 0, 0, 0, 1, 0, 2, 0,
          0x44, 0xAC, 0, 0, 0x10, 0xB1, 0x02, 0, 4, 0, 0x10, 0,
          0x64, 0x61, 0x74, 0x61, 0, 0, 0, 0]"
  using audioBufferToWav_total
          [of "\<lparr>sampleRate = 44100, length_ab = 0, channelData = [[], []]\<rparr>"]
  by (auto simp: numberOfChannels_def wav_header_spec_def le32_def le16_def)

section \<open>Properties of audioBufferToMp3\<close>

lemma length_floatTo16BitPCM [simp]: "length (floatTo16BitPCM xs) = length xs"
  by (simp add: floatTo16BitPCM_def)

lemma floatTo16BitPCM_quantize: "floatTo16BitPCM xs = map quantize_sample xs"
proof -
  have "ToInt16 (if js_less (js_max (Num (- 1)) (js_min (Num 1) x)) (Num 0)
                 then js_mul (js_max (Num (- 1)) (js_min (Num 1) x)) (Num 32768)
                 else js_mul (js_max (Num (- 1)) (js_min (Num 1) x)) (Num 32767))
        = quantize_sample x" for x
    by (cases x) (auto simp: quantize_spec_def Let_def)
  then show ?thesis
    by (simp add: floatTo16BitPCM_def Let_def)
qed

lemma subarray_block: "subarray xs i (i + n) = take n (drop i xs)"
  by (simp add: subarray_def take_drop add.commute)

lemma blocks_of_drop:
  "i < length xs \<Longrightarrow>
   blocks_of sampleBlockSize (drop i xs)
     = take sampleBlockSize (drop i xs) # blocks_of sampleBlockSize (drop (i + sampleBlockSize) xs)"
  by (subst blocks_of.simps) (simp add: sampleBlockSize_def add.commute)

lemma blocks_of_done: "length xs \<le> i \<Longrightarrow> blocks_of n (drop i xs) = []"
  by (subst blocks_of.simps) simp

lemma concat_chunks: "concat (if c \<noteq> [] then a @ [c] else a) = concat a @ c"
  by simp

lemma blocks_of_Nil [simp]: "blocks_of n [] = []"
  by (subst blocks_of.simps) simp

lemma encode_blocks_mono:
  assumes "channels = 1"
  shows "encode_blocks E channels left right i (enc, acc)
   = feed_blocks E (map (\<lambda>lb. (lb, None)) (blocks_of sampleBlockSize (drop i left))) (enc, acc)"
proof (induction "length left - i" arbitrary: i enc acc rule: less_induct)
  case less
  show ?case
  proof (cases "i < length left")
    case True
    have dec: "length left - (i + sampleBlockSize) < length left - i"
      using True by (simp add: sampleBlockSize_def)
    show ?thesis
      apply (subst encode_blocks.simps)
      apply (simp only: True if_True assms[THEN eqTrueI] Let_def subarray_block
               blocks_of_drop[OF True] list.map feed_blocks.simps)
      apply (cases "encodeBuffer E enc (take sampleBlockSize (drop i left)) None")
       apply simp
      apply (auto split: prod.splits simp: less.hyps[OF dec])
      done
  next
    case False
    then show ?thesis
      by (subst encode_blocks.simps) (simp add: blocks_of_done)
  qed
qed

lemma encode_blocks_stereo:
  assumes "length r = length left" "channels \<noteq> 1"
  shows "encode_blocks E channels left (Some r) i (enc, acc)
   = feed_blocks E (zip (blocks_of sampleBlockSize (drop i left))
                        (map Some (blocks_of sampleBlockSize (drop i r)))) (enc, acc)"
proof (induction "length left - i" arbitrary: i enc acc rule: less_induct)
  case less
  show ?case
  proof (cases "i < length left")
    case True
    have dec: "length left - (i + sampleBlockSize) < length left - i"
      using True by (simp add: sampleBlockSize_def)
    have ir: "i < length r" using True assms by simp
    show ?thesis
      apply (subst encode_blocks.simps)
      apply (simp only: True if_True if_False assms(2) Let_def subarray_block option.case
               blocks_of_drop[OF True] blocks_of_drop[OF ir] list.map zip_Cons_Cons
               feed_blocks.simps)
      apply (cases "encodeBuffer E enc (take sampleBlockSize (drop i left))
                      (Some (take sampleBlockSize (drop i r)))")
       apply simp
      apply (auto split: prod.splits simp: less.hyps[OF dec])
      done
  next
    case False
    then show ?thesis
      using assms(1) by (subst encode_blocks.simps) (simp add: blocks_of_done)
  qed
qed


text \<open>
  The blocks of the specification are what it says: cut end to end they give the channel
  back, and block \<open>k\<close> is the at most \<open>n\<close> frames from frame \<open>k * n\<close> on.
\<close>

lemma concat_blocks_of: "0 < n \<Longrightarrow> concat (blocks_of n xs) = xs"
proof (induction n xs rule: blocks_of.induct)
  case (1 n xs)
  then show ?case by (subst blocks_of.simps) auto
qed

lemma nth_blocks_of:
  "0 < n \<Longrightarrow> k < length (blocks_of n xs) \<Longrightarrow> blocks_of n xs ! k = take n (drop (k * n) xs)"
proof (induction n xs arbitrary: k rule: blocks_of.induct)
  case (1 n xs)
  show ?case
  proof (cases "xs = []")
    case True
    then show ?thesis using 1(3) by simp
  next
    case False
    have eq: "blocks_of n xs = take n xs # blocks_of n (drop n xs)"
      using False 1(2) by (subst blocks_of.simps) simp
    show ?thesis
    proof (cases k)
      case 0
      then show ?thesis by (simp add: eq)
    next
      case (Suc j)
      then have "j < length (blocks_of n (drop n xs))" using 1(3) eq by simp
      from 1(1)[OF _ 1(2) this] False 1(2) Suc show ?thesis
        by (simp add: eq add.commute)
    qed
  qed
qed

text \<open>
  C4. On a buffer the host made (a channel at least, all channels of the buffer's length)
  \<open>audioBufferToMp3\<close> is the specified pipeline, whatever the encoder does: at most the
  first two channels are quantised to 16-bit PCM by the rule of the specification
  (\<open>NaN\<close> to 0), a fresh encoder is made for 128 kbps, the blocks of 1152
  frames are fed in order (the last one as it is), the non-empty chunks and what the flush
  returns are concatenated, and an error of the encoder is the error of the call.
\<close>

theorem audioBufferToMp3_pipeline:
  assumes "structurally_valid b" and "0 < numberOfChannels b"
  shows "audioBufferToMp3 (Some E) b = encodeMp3_spec E b"
proof (cases "channelData b")
  case Nil
  with assms(2) show ?thesis by (simp add: numberOfChannels_def)
next
  case (Cons c0 cs)
  note c0 = Cons
  show ?thesis
  proof (cases cs)
    case Nil
    have one: "min 2 (numberOfChannels b) = 1"
      using c0 Nil by (simp add: numberOfChannels_def)
    have g0: "getChannelData b 0 = Inr c0"
      using c0 by (simp add: getChannelData_def numberOfChannels_def)
    have pcm: "map (map quantize_sample) (take 2 (channelData b)) = [floatTo16BitPCM c0]"
      using c0 Nil by (simp add: floatTo16BitPCM_quantize)
    show ?thesis
      unfolding audioBufferToMp3_def encodeMp3_spec_def one pcm Let_def
      by (simp add: g0 encode_blocks_mono[OF refl, of E _ _ 0, simplified] concat_chunks
            sampleBlockSize_def)
  next
    case (Cons c1 cs')
    have len: "length (floatTo16BitPCM c1) = length (floatTo16BitPCM c0)"
      using assms(1) c0 Cons by (simp add: structurally_valid_def)
    have two: "min 2 (numberOfChannels b) = 2"
      using c0 Cons by (simp add: numberOfChannels_def)
    have g0: "getChannelData b 0 = Inr c0" "getChannelData b (Suc 0) = Inr c1"
      using c0 Cons by (simp_all add: getChannelData_def numberOfChannels_def)
    have pcm: "map (map quantize_sample) (take 2 (channelData b))
               = [floatTo16BitPCM c0, floatTo16BitPCM c1]"
      using c0 Cons by (simp add: numeral_2_eq_2 floatTo16BitPCM_quantize)
    have l2: "length [floatTo16BitPCM c0, floatTo16BitPCM c1] = 2" by simp
    have ne: "(2 :: nat) \<noteq> 1" by simp
    show ?thesis
      unfolding audioBufferToMp3_def encodeMp3_spec_def two pcm Let_def l2
      by (simp add: g0 encode_blocks_stereo[OF len ne, of E 0, simplified] concat_chunks
            sampleBlockSize_def)
  qed
qed

theorem audioBufferToMp3_pipeline_witness:
  "structurally_valid
     \<lparr>sampleRate = 44100, length_ab = 1153,
      channelData = [replicate 1152 (Num (- 0.25)) @ [Num 1],
                     replicate 1152 (Num 0.5) @ [Num (- 2)],
                     replicate 1153 (Num 0)]\<rparr> \<and>
   audioBufferToMp3
     (Some \<lparr>new_encoder = (\<lambda>c r k. if c = 2 \<and> k = 128 then Inr 0 else Inl TypeError),
            encodeBuffer = (\<lambda>st l r.
               Inr (le16 (hd l) @ le16 (last l) @ [of_nat (length l), of_nat (length l div 256)]
                      @ (case r of None \<Rightarrow> [] | Some x \<Rightarrow> le16 (hd x) @ le16 (last x)),
                    Suc st)),
            flush = (\<lambda>st. Inr ([of_nat st], st))\<rparr>)
     \<lparr>sampleRate = 44100, length_ab = 1153,
      channelData = [replicate 1152 (Num (- 0.25)) @ [Num 1],
                     replicate 1152 (Num 0.5) @ [Num (- 2)],
                     replicate 1153 (Num 0)]\<rparr>
   = Inr [0x00, 0xE0, 0x00, 0xE0, 0x80, 0x04, 0xFF, 0x3F, 0xFF, 0x3F,
          0xFF, 0x7F, 0xFF, 0x7F, 0x01, 0x00, 0x00, 0x80, 0x00, 0x80,
          0x02]"
proof -
  let ?b = "\<lparr>sampleRate = 44100, length_ab = 1153,
      channelData = [replicate 1152 (Num (- 0.25)) @ [Num 1],
                     replicate 1152 (Num 0.5) @ [Num (- 2)],
                     replicate 1153 (Num 0)]\<rparr>"
  let ?E = "\<lparr>new_encoder = (\<lambda>c r k. if c = 2 \<and> k = 128 then Inr (0 :: nat) else Inl TypeError),
            encodeBuffer = (\<lambda>st l r.
               Inr (le16 (hd l) @ le16 (last l) @ [of_nat (length l), of_nat (length l div 256)]
                      @ (case r of None \<Rightarrow> [] | Some x \<Rightarrow> le16 (hd x) @ le16 (last x)),
                    Suc st)),
            flush = (\<lambda>st. Inr ([of_nat st], st))\<rparr>"
  have v: "structurally_valid ?b" by (simp add: structurally_valid_def)
  have c: "0 < numberOfChannels ?b" by (simp add: numberOfChannels_def)
  have q: "quantize_sample (Num (- (1 / 4))) = - 8192" "quantize_sample (Num 1) = 32767"
    "quantize_sample (Num (1 / 2)) = 16383" "quantize_sample (Num (- 2)) = - 32768"
    by (simp_all add: quantize_spec_def js_trunc_def)
  have "encodeMp3_spec ?E ?b
        = Inr [0x00, 0xE0, 0x00, 0xE0, 0x80, 0x04, 0xFF, 0x3F, 0xFF, 0x3F,
               0xFF, 0x7F, 0xFF, 0x7F, 0x01, 0x00, 0x00, 0x80, 0x00, 0x80,
               0x02]"
    by (simp add: encodeMp3_spec_def q blocks_of.simps le16_def del: quantize_sample.simps)
  with v audioBufferToMp3_pipeline[OF v c, of ?E] show ?thesis by simp
qed

section \<open>Properties of handleDownloadAll\<close>

text \<open>
  The number in a message or file name determines the index it was made from; a WAV batch
  puts every segment's stored blob into the archive under \<open>sentence-{index + 1}.wav\<close> and
  offers the archive for download.
\<close>

lemma digit_value: "n < 10 \<Longrightarrow> (of_char (''0123456789'' ! n) :: nat) = 48 + n"
proof -
  have "list_all (\<lambda>k. (of_char (''0123456789'' ! k) :: nat) = 48 + k) [0..<10]"
    by code_simp
  then show "n < 10 \<Longrightarrow> (of_char (''0123456789'' ! n) :: nat) = 48 + n"
    by (simp add: list_all_iff)
qed

lemma nat_of_string_of_nat: "nat_of_string (string_of_nat n) = n"
proof (induction n rule: string_of_nat.induct)
  case (1 n)
  show ?case
  proof (cases "n < 10")
    case True
    then show ?thesis
      by (subst string_of_nat.simps) (simp add: nat_of_string_def digit_value)
  next
    case False
    have "nat_of_string (string_of_nat n)
          = 10 * nat_of_string (string_of_nat (n div 10)) + (n mod 10)"
      using False
      by (subst string_of_nat.simps) (simp add: nat_of_string_def digit_value)
    then show ?thesis using 1[OF False] by simp
  qed
qed

lemma string_of_nat_inj: "string_of_nat m = string_of_nat n \<Longrightarrow> m = n"
  by (metis nat_of_string_of_nat)

lemma zip_segments_wav:
  "n = length segments - index \<Longrightarrow>
   zip_segments lamejs Wav segments index (z, h)
   = Inr (z @ map (\<lambda>j. (''sentence-'' @ string_of_nat (j + 1) @ ''.wav'', blob (segments ! j)))
                [index..<length segments], h)"
proof (induction n arbitrary: index z)
  case 0
  then show ?case by (subst zip_segments.simps) simp
next
  case (Suc n)
  then have i: "index < length segments" and n: "n = length segments - Suc index" by simp_all
  show ?case
    apply (subst zip_segments.simps)
    using i by (simp add: Suc.IH[OF n] upt_conv_Cons Let_def)
qed

lemma handleDownloadAll_wav:
  assumes "processedSegments app \<noteq> []"
    and "generateAsync (map (\<lambda>j. (''sentence-'' @ string_of_nat (j + 1) @ ''.wav'',
                                   blob (processedSegments app ! j)))
                          [0..<length (processedSegments app)]) = Inr content"
  shows "snd (handleDownloadAll lamejs generateAsync app Wav)
         = [download ((case originalFile app of
                         None \<Rightarrow> ''audio''
                       | Some name \<Rightarrow> if strip_extension name = [] then ''audio''
                                      else strip_extension name) @ ''-sentences-wav.zip'') content]"
  using assms zip_segments_wav[OF refl, of lamejs "processedSegments app" 0 "[]" False]
  by (simp add: handleDownloadAll_def Let_def)

lemma strip_extension_examples:
  "strip_extension ''talk.mp3'' = ''talk''"
  "strip_extension ''a.b.wav'' = ''a.b''"
  "strip_extension ''noext'' = ''noext''"
  "strip_extension ''dir.d/file'' = ''dir.d/file''"
  "strip_extension ''trailing.'' = ''trailing.''"
  by (simp_all add: strip_extension_def)

lemma zip_segments_fails:
  "segments = done @ pre @ seg # post \<Longrightarrow> index = length done \<Longrightarrow>
   \<forall>s \<in> set pre. \<not> isl (audioBufferToMp3 lamejs (audioBuffer s)) \<Longrightarrow>
   audioBufferToMp3 lamejs (audioBuffer seg) = Inl e \<Longrightarrow>
   zip_segments lamejs Mp3 segments index (z, h)
     = Inl (''Failed to convert segment '' @ string_of_nat (length done + length pre + 1) @ '' to MP3.'')"
proof (induction pre arbitrary: "done" index z)
  case Nil
  then show ?case by (subst zip_segments.simps) (simp add: nth_append)
next
  case (Cons s pre)
  from Cons.prems(3) obtain blob' where ok: "audioBufferToMp3 lamejs (audioBuffer s) = Inr blob'"
    by (cases "audioBufferToMp3 lamejs (audioBuffer s)") auto
  have seg: "segments = (done @ [s]) @ pre @ seg # post" using Cons.prems(1) by simp
  have idx: "index + 1 = length (done @ [s])" using Cons.prems(2) by simp
  have rest: "\<forall>s \<in> set pre. \<not> isl (audioBufferToMp3 lamejs (audioBuffer s))"
    using Cons.prems(3) by simp
  note IH = Cons.IH[OF seg idx rest Cons.prems(4)]
  have nth: "segments ! index = s" "index < length segments"
    using Cons.prems(1,2) by (simp_all add: nth_append)
  show ?case
    apply (subst zip_segments.simps)
    apply (simp only: nth if_True Let_def ok sum.case and_then.simps case_prod_conv IH refl)
    apply simp
    done
qed

text \<open>
  C6. In an MP3 batch, when the encoding of a segment fails and that of every segment
  before it succeeded, the handler stops there: the segments after it and the archive
  library have no part in the result, no download is offered, and the one thing reported
  is an alert naming the segment by its number \<open>index + 1\<close>.
\<close>

theorem handleDownloadAll_aborts_on_failure:
  assumes "processedSegments app = pre @ seg # post"
    and "\<forall>s \<in> set pre. \<not> isl (audioBufferToMp3 lamejs (audioBuffer s))"
    and "audioBufferToMp3 lamejs (audioBuffer seg) = Inl e"
  shows "handleDownloadAll lamejs generateAsync app Mp3
         = (app\<lparr>isZipping := False, zipType := None\<rparr>,
            [alert (''Failed to create MP3 zip file. Error: Failed to convert segment ''
                      @ string_of_nat (length pre + 1) @ '' to MP3.'')])"
proof -
  have "zip_segments lamejs Mp3 (processedSegments app) 0 ([], False)
        = Inl (''Failed to convert segment '' @ string_of_nat (length pre + 1) @ '' to MP3.'')"
    using zip_segments_fails[of "processedSegments app" "[]" pre seg post 0 lamejs e "[]" False] assms
    by simp
  then show ?thesis
    using assms(1) by (simp add: handleDownloadAll_def Let_def)
qed

theorem handleDownloadAll_aborts_on_failure_witness:
  "handleDownloadAll
     (Some \<lparr>new_encoder = (\<lambda>c r k. Inr (0 :: nat)),
            encodeBuffer = (\<lambda>st l r. if l = [32767] then Inl (Error ''bad block'')
                                       else Inr ([of_nat (length l)], Suc st)),
            flush = (\<lambda>st. Inr ([], st))\<rparr>)
     (\<lambda>entries. Inr (concat (map snd entries)))
     \<lparr>processedSegments =
        map (\<lambda>x. \<lparr>text_seg = ''a sentence'', start_seg = 0, end_seg = 1, id_seg = ''seg'',
                    blob = [], url = ''blob:1'', duration = 1,
                    audioBuffer = \<lparr>sampleRate = 8000, length_ab = 1, channelData = [[Num x]]\<rparr>\<rparr>)
          [0, 0, 1, 0, 0],
      originalFile = Some ''talk.mp3'', isZipping = False, zipType = None\<rparr> Mp3
   = (\<lparr>processedSegments =
        map (\<lambda>x. \<lparr>text_seg = ''a sentence'', start_seg = 0, end_seg = 1, id_seg = ''seg'',
                    blob = [], url = ''blob:1'', duration = 1,
                    audioBuffer = \<lparr>sampleRate = 8000, length_ab = 1, channelData = [[Num x]]\<rparr>\<rparr>)
          [0, 0, 1, 0, 0],
       originalFile = Some ''talk.mp3'', isZipping = False, zipType = None\<rparr>,
      [alert ''Failed to create MP3 zip file. Error: Failed to convert segment 3 to MP3.''])"
proof -
  let ?E = "\<lparr>new_encoder = (\<lambda>c r k. Inr (0 :: nat)),
            encodeBuffer = (\<lambda>st l r. if l = [32767] then Inl (Error ''bad block'')
                                       else Inr ([of_nat (length l)], Suc st)),
            flush = (\<lambda>st. Inr ([], st))\<rparr>"
  let ?seg = "\<lambda>x. \<lparr>text_seg = ''a sentence'', start_seg = 0, end_seg = 1, id_seg = ''seg'',
                    blob = [], url = ''blob:1'', duration = 1,
                    audioBuffer = \<lparr>sampleRate = 8000, length_ab = 1, channelData = [[Num x]]\<rparr>\<rparr>"
  let ?app = "\<lparr>processedSegments = map ?seg [0, 0, 1, 0, 0],
      originalFile = Some ''talk.mp3'', isZipping = False, zipType = None\<rparr>"
  have ok: "audioBufferToMp3 (Some ?E) (audioBuffer (?seg 0)) = Inr [1]"
    by (simp add: audioBufferToMp3_def getChannelData_def numberOfChannels_def
          floatTo16BitPCM_def encode_blocks.simps subarray_def sampleBlockSize_def js_trunc_def)
  have bad: "audioBufferToMp3 (Some ?E) (audioBuffer (?seg 1)) = Inl (Error ''bad block'')"
    by (simp add: audioBufferToMp3_def getChannelData_def numberOfChannels_def
          floatTo16BitPCM_def encode_blocks.simps subarray_def sampleBlockSize_def js_trunc_def)
  have pre: "\<forall>s \<in> set [?seg 0, ?seg 0]. \<not> isl (audioBufferToMp3 (Some ?E) (audioBuffer s))"
    using ok by simp
  have segs: "processedSegments ?app = [?seg 0, ?seg 0] @ ?seg 1 # [?seg 0, ?seg 0]" by simp
  from handleDownloadAll_aborts_on_failure[OF segs pre bad, of "\<lambda>entries. Inr (concat (map snd entries))"]
  show ?thesis by (simp add: string_of_nat.simps)
qed

text \<open>
  C10. With no processed segments the handler returns at once: the state is unchanged,
  nothing is shown or offered, whatever the encoder and the archive library would do.
\<close>

theorem handleDownloadAll_empty:
  assumes "processedSegments app = []"
  shows "handleDownloadAll lamejs generateAsync app format = (app, [])"
  using assms by (simp add: handleDownloadAll_def)

theorem handleDownloadAll_empty_witness:
  "handleDownloadAll (None :: unit Mp3Encoder option) (\<lambda>entries. Inl ''no archive'')
     \<lparr>processedSegments = [], originalFile = Some ''talk.mp3'', isZipping = False,
      zipType = None\<rparr> Mp3
   = (\<lparr>processedSegments = [], originalFile = Some ''talk.mp3'', isZipping = False,
       zipType = None\<rparr>, [])"
  using handleDownloadAll_empty
          [of "\<lparr>processedSegments = [], originalFile = Some ''talk.mp3'', isZipping = False,
                zipType = None\<rparr>" "None :: unit Mp3Encoder option"
              "\<lambda>entries. Inl ''no archive''" Mp3]
  by simp

end
